theory Spec2Isabelle
  imports Main "HOL-Library.Word" "HOL-Library.Sublist"
begin

section \<open>Image extraction of the medical image classifier (utils/extract\_images.py)\<close>

text \<open>
  The module has three functions: \<open>extract_images_from_pdf\<close>, \<open>extract_images_from_url\<close>
  and \<open>download_and_convert\<close>. They call four libraries (PyMuPDF, requests, BeautifulSoup,
  Pillow). The libraries are not code of the repository: they are the fields of the record
  \<open>env\<close>, and a theorem with a variable \<open>env\<close> holds for every environment. An exception is a value of type
  \<open>exn\<close>; a call that may raise returns \<open>exn + 'a\<close>, with \<open>Inl\<close> the raised exception.
  What the functions do to the outside (the calls of \<open>requests.get\<close> and the lines they
  print) is a trace of events that every function takes and returns extended.
\<close>

subsection \<open>Data\<close>

type_synonym bytes = "8 word list"

datatype exn =
    FileNotFoundError
  | FileDataError
  | KeyError
  | ConnectionError
  | Timeout
  | MissingSchema
  | HTTPError nat
  | UnidentifiedImageError
  | OSError
  | ParserError

text \<open>An entry of \<open>page.get_images(full=True)\<close>: a tuple whose component 0 is the xref.\<close>

record image_info =
  xref :: nat
  img_name :: string

record page =
  get_images :: "image_info list"

text \<open>
  A document opened by \<open>fitz.open\<close>: iterating it gives its pages in order;
  \<open>doc.extract_image(xref)\<close> gives a dictionary, of which the bytes-valued entries are kept.
\<close>

record document =
  pages :: "page list"
  extract_image :: "nat \<Rightarrow> exn + (string \<rightharpoonup> bytes)"

record response =
  status_code :: nat
  content :: bytes
  text_of :: string

text \<open>An \<open>img\<close> element found by BeautifulSoup: its attributes.\<close>

type_synonym tag = "string \<rightharpoonup> string"

text \<open>A decoded Pillow image: its mode, its size and its pixel data.\<close>

record image =
  mode :: string
  img_width :: nat
  img_height :: nat
  pixels :: bytes

type_synonym headers = "(string \<times> string) list"

record env =
  fitz_open :: "string \<Rightarrow> exn + document"
  requests_get :: "string \<Rightarrow> headers \<Rightarrow> nat \<Rightarrow> exn + response"
  raise_for_status :: "response \<Rightarrow> exn option"
  find_all_img :: "string \<Rightarrow> exn + tag list"
  image_open :: "bytes \<Rightarrow> exn + image"
  image_convert :: "image \<Rightarrow> string \<Rightarrow> exn + image"
  image_save :: "image \<Rightarrow> string \<Rightarrow> exn + bytes"

text \<open>The lines the module prints, one constructor for each \<open>print\<close> of the source.\<close>

datatype msg =
    Direct_image_URL_detected string
  | Image_like_URL_detected string
  | Failed_to_download_as_direct_image
  | Fetching_HTML_from string
  | Error_processing_image_from string exn
  | Error_fetching_webpage exn
  | Found_images nat
  | Could_not_open_convert string exn

text \<open>
  An event is a call \<open>requests.get(url, timeout=t, headers=h)\<close> (the headers are \<open>[]\<close>
  when the call passes none) or a printed line. A trace lists the events oldest first.
\<close>

datatype event = GET string headers nat | PRINT msg

type_synonym trace = "event list"

subsection \<open>Python's string operations\<close>

text \<open>
  A Python string is a list of 8-bit characters, read as the code points below 256.
  \<open>str.strip()\<close> removes the characters for which \<open>str.isspace\<close> holds. Below 256 these
  are tab, line feed, vertical tab, form feed, carriage return (9 to 13), the four
  separators 28 to 31, the space (32), the next-line control (133) and the no-break space
  (160).
\<close>

definition isspace :: "char \<Rightarrow> bool" where
  "isspace c =
     (let n = (of_char c :: nat)
      in (9 \<le> n \<and> n \<le> 13) \<or> (28 \<le> n \<and> n \<le> 32) \<or> n = 133 \<or> n = 160)"

definition strip :: "string \<Rightarrow> string" where
  "strip s = rev (dropWhile isspace (rev (dropWhile isspace s)))"

text \<open>
  \<open>str.lower()\<close>: below 256 the upper-case letters are A to Z (65 to 90) and the
  accented capitals 192 to 222 without the multiplication sign (215); the lower-case
  letter is 32 further.
\<close>

definition lower_char :: "char \<Rightarrow> char" where
  "lower_char c =
     (let n = (of_char c :: nat)
      in if (65 \<le> n \<and> n \<le> 90) \<or> (192 \<le> n \<and> n \<le> 222 \<and> n \<noteq> 215)
         then char_of (n + 32) else c)"

definition lower :: "string \<Rightarrow> string" where
  "lower s = map lower_char s"

fun startswith :: "string \<Rightarrow> string \<Rightarrow> bool" where
  "startswith s [] = True"
| "startswith [] (p # ps) = False"
| "startswith (c # cs) (p # ps) = (c = p \<and> startswith cs ps)"

definition endswith :: "string \<Rightarrow> string \<Rightarrow> bool" where
  "endswith s suf = startswith (rev s) (rev suf)"

text \<open>\<open>s.endswith((a, b, ...))\<close>: one of the suffixes of the tuple.\<close>

definition endswith_any :: "string \<Rightarrow> string list \<Rightarrow> bool" where
  "endswith_any s sufs = list_ex (endswith s) sufs"

text \<open>\<open>p in s\<close>: the substring test.\<close>

fun contains :: "string \<Rightarrow> string \<Rightarrow> bool" where
  "contains [] p = (p = [])"
| "contains (c # cs) p = (startswith (c # cs) p \<or> contains cs p)"

text \<open>\<open>s.split(c)\<close> for a separator of one character, and \<open>sep.join(parts)\<close>.\<close>

fun split :: "string \<Rightarrow> char \<Rightarrow> string list" where
  "split [] c = [[]]"
| "split (x # xs) c =
     (if x = c then [] # split xs c
      else (case split xs c of [] \<Rightarrow> [[x]] | p # ps \<Rightarrow> (x # p) # ps))"

fun join :: "string \<Rightarrow> string list \<Rightarrow> string" where
  "join sep [] = []"
| "join sep [p] = p"
| "join sep (p # q # ps) = p @ sep @ join sep (q # ps)"

subsection \<open>extract\_images\_from\_pdf\<close>

text \<open>
  The inner loop, over the entries of one page: each entry's xref is extracted and the
  value under the key \<open>image\<close> is appended. An exception of \<open>extract_image\<close> and a missing
  key end the call.
\<close>

fun page_loop :: "document \<Rightarrow> image_info list \<Rightarrow> bytes list \<Rightarrow> exn + bytes list" where
  "page_loop doc [] images = Inr images"
| "page_loop doc (img # imgs) images =
     (case extract_image doc (xref img) of
        Inl e \<Rightarrow> Inl e
      | Inr base_image \<Rightarrow>
          (case base_image ''image'' of
             None \<Rightarrow> Inl KeyError
           | Some b \<Rightarrow> page_loop doc imgs (images @ [b])))"

text \<open>The outer loop, over the pages of the document.\<close>

fun doc_loop :: "document \<Rightarrow> page list \<Rightarrow> bytes list \<Rightarrow> exn + bytes list" where
  "doc_loop doc [] images = Inr images"
| "doc_loop doc (pg # pgs) images =
     (case page_loop doc (get_images pg) images of
        Inl e \<Rightarrow> Inl e
      | Inr images' \<Rightarrow> doc_loop doc pgs images')"

definition extract_images_from_pdf :: "env \<Rightarrow> string \<Rightarrow> exn + bytes list" where
  "extract_images_from_pdf env pdf_path =
     (case fitz_open env pdf_path of
        Inl e \<Rightarrow> Inl e
      | Inr doc \<Rightarrow> doc_loop doc (pages doc) [])"

subsection \<open>download\_and\_convert\<close>

definition user_agent :: string where
  "user_agent = ''Mozilla/5.0 (Windows NT 10.0; Win64; x64) '' @
                ''AppleWebKit/537.36 (KHTML, like Gecko) '' @
                ''Chrome/127.0.0.0 Safari/537.36''"

definition browser_headers :: headers where
  "browser_headers = [(''User-Agent'', user_agent)]"

text \<open>
  The \<open>try\<close> block of \<open>download_and_convert\<close> (the spec's \<open>normalize\<close>): the buffer is
  opened, converted to RGB and saved as JPEG. Any exception of the three calls is caught,
  printed, and the result is \<open>None\<close>.
\<close>

definition normalize_buffer :: "env \<Rightarrow> string \<Rightarrow> bytes \<Rightarrow> trace \<Rightarrow> bytes option \<times> trace" where
  "normalize_buffer env img_url buffer w =
     (case image_open env buffer of
        Inl e \<Rightarrow> (None, w @ [PRINT (Could_not_open_convert img_url e)])
      | Inr img \<Rightarrow>
          (case image_convert env img ''RGB'' of
             Inl e \<Rightarrow> (None, w @ [PRINT (Could_not_open_convert img_url e)])
           | Inr rgb \<Rightarrow>
               (case image_save env rgb ''JPEG'' of
                  Inl e \<Rightarrow> (None, w @ [PRINT (Could_not_open_convert img_url e)])
                | Inr out \<Rightarrow> (Some out, w))))"

text \<open>
  The request and \<open>raise_for_status\<close> are outside the \<open>try\<close> block: their exceptions leave
  the function.
\<close>

definition download_and_convert ::
    "env \<Rightarrow> string \<Rightarrow> trace \<Rightarrow> (exn + bytes option) \<times> trace" where
  "download_and_convert env img_url w =
     (let w1 = w @ [GET img_url browser_headers 10] in
      case requests_get env img_url browser_headers 10 of
        Inl e \<Rightarrow> (Inl e, w1)
      | Inr resp \<Rightarrow>
          (case raise_for_status env resp of
             Some e \<Rightarrow> (Inl e, w1)
           | None \<Rightarrow>
               (case normalize_buffer env img_url (content resp) w1 of
                  (r, w2) \<Rightarrow> (Inr r, w2))))"

subsection \<open>The objects of the try block\<close>

text \<open>
  The \<open>try\<close> block creates two \<open>io.BytesIO\<close> objects: one holds the downloaded bytes
  and is read by \<open>Image.open\<close>, the other receives what \<open>img.save\<close> writes and is read
  back with \<open>getvalue\<close>. Here they are cells of a store that the block takes and
  returns: a stream has its bytes and its position, \<open>BytesIO\<close> appends a new cell and
  returns its address, reading goes from the position to the end, writing goes over the
  bytes at the position (after padding with zeros up to it) and \<open>getvalue\<close> is the whole
  content. \<open>normalize_stored\<close> is the block with these objects; \<open>normalize_buffer\<close> above
  is the same block without them.
\<close>

record stream =
  stream_data :: bytes
  stream_pos :: nat

type_synonym store = "stream list"

definition BytesIO :: "store \<Rightarrow> bytes \<Rightarrow> nat \<times> store" where
  "BytesIO st initial = (length st, st @ [\<lparr>stream_data = initial, stream_pos = 0\<rparr>])"

definition stream_read :: "store \<Rightarrow> nat \<Rightarrow> bytes \<times> store" where
  "stream_read st a =
     (if a < length st
      then (let s = st ! a
            in (drop (stream_pos s) (stream_data s),
                st[a := s\<lparr>stream_pos := max (stream_pos s) (length (stream_data s))\<rparr>]))
      else ([], st))"

definition stream_write :: "store \<Rightarrow> nat \<Rightarrow> bytes \<Rightarrow> store" where
  "stream_write st a bs =
     (if a < length st
      then (let s = st ! a;
                padded = stream_data s @ replicate (stream_pos s - length (stream_data s)) 0
            in st[a := \<lparr>stream_data = take (stream_pos s) padded @ bs @
                                       drop (stream_pos s + length bs) padded,
                        stream_pos = stream_pos s + length bs\<rparr>])
      else st)"

definition getvalue :: "store \<Rightarrow> nat \<Rightarrow> bytes" where
  "getvalue st a = (if a < length st then stream_data (st ! a) else [])"

definition normalize_stored ::
    "env \<Rightarrow> string \<Rightarrow> bytes \<Rightarrow> store \<Rightarrow> trace \<Rightarrow> bytes option \<times> store \<times> trace" where
  "normalize_stored env img_url buffer st w =
     (case BytesIO st buffer of
        (src, st1) \<Rightarrow>
          (case stream_read st1 src of
             (bs, st2) \<Rightarrow>
               (case image_open env bs of
                  Inl e \<Rightarrow> (None, st2, w @ [PRINT (Could_not_open_convert img_url e)])
                | Inr img \<Rightarrow>
                    (case image_convert env img ''RGB'' of
                       Inl e \<Rightarrow> (None, st2, w @ [PRINT (Could_not_open_convert img_url e)])
                     | Inr rgb \<Rightarrow>
                         (case BytesIO st2 [] of
                            (buf, st3) \<Rightarrow>
                              (case image_save env rgb ''JPEG'' of
                                 Inl e \<Rightarrow>
                                   (None, st3, w @ [PRINT (Could_not_open_convert img_url e)])
                               | Inr enc \<Rightarrow>
                                   (let st4 = stream_write st3 buf enc
                                    in (Some (getvalue st4 buf), st4, w))))))))"

subsection \<open>extract\_images\_from\_url\<close>

text \<open>The two tests on the stripped URL, both on its lower-cased form.\<close>

definition direct_image_link :: "string \<Rightarrow> bool" where
  "direct_image_link url =
     endswith_any (lower url)
       [''.jpg'', ''.jpeg'', ''.png'', ''.gif'', ''.bmp'', ''.tiff'', ''.webp'']"

definition image_like_url :: "string \<Rightarrow> bool" where
  "image_like_url url =
     list_ex (contains (lower url))
       [''/image/'', ''/photo/'', ''/img/'', ''.png'', ''.jpg'', ''.jpeg'']"

text \<open>The rewriting of an image source in the loop over the \<open>img\<close> elements.\<close>

definition rewrite_src :: "string \<Rightarrow> string \<Rightarrow> string" where
  "rewrite_src url src =
     (if startswith src ''//'' then ''https:'' @ src
      else if startswith src ''/'' then join ''/'' (take 3 (split url CHR ''/'')) @ src
      else src)"

text \<open>
  The loop over the \<open>img\<close> elements. An element without a source, or with an empty one, is
  passed over. An exception of \<open>download_and_convert\<close> is caught and printed; a result that
  is \<open>None\<close> or empty is dropped; any other result is appended.
\<close>

fun img_loop :: "env \<Rightarrow> string \<Rightarrow> tag list \<Rightarrow> bytes list \<Rightarrow> trace \<Rightarrow> bytes list \<times> trace" where
  "img_loop env url [] images w = (images, w)"
| "img_loop env url (tg # tags) images w =
     (case tg ''src'' of
        None \<Rightarrow> img_loop env url tags images w
      | Some src0 \<Rightarrow>
          if src0 = [] then img_loop env url tags images w
          else
            (let src = rewrite_src url src0 in
             case download_and_convert env src w of
               (Inl e, w') \<Rightarrow>
                 img_loop env url tags images (w' @ [PRINT (Error_processing_image_from src e)])
             | (Inr None, w') \<Rightarrow> img_loop env url tags images w'
             | (Inr (Some img_bytes), w') \<Rightarrow>
                 if img_bytes = [] then img_loop env url tags images w'
                 else img_loop env url tags (images @ [img_bytes]) w'))"

text \<open>
  The last part of the function (``Otherwise, treat it as a webpage''): the page is
  requested without headers; any exception of the request, of \<open>raise_for_status\<close> or of the
  parser is caught, printed, and the result is the empty list.
\<close>

definition treat_as_webpage :: "env \<Rightarrow> string \<Rightarrow> trace \<Rightarrow> (exn + bytes list) \<times> trace" where
  "treat_as_webpage env url w =
     (let w1 = w @ [PRINT (Fetching_HTML_from url), GET url [] 10] in
      case requests_get env url [] 10 of
        Inl e \<Rightarrow> (Inr [], w1 @ [PRINT (Error_fetching_webpage e)])
      | Inr resp \<Rightarrow>
          (case raise_for_status env resp of
             Some e \<Rightarrow> (Inr [], w1 @ [PRINT (Error_fetching_webpage e)])
           | None \<Rightarrow>
               (case find_all_img env (text_of resp) of
                  Inl e \<Rightarrow> (Inr [], w1 @ [PRINT (Error_fetching_webpage e)])
                | Inr img_tags \<Rightarrow>
                    (case img_loop env url img_tags [] w1 of
                       (images, w2) \<Rightarrow>
                         (Inr images, w2 @ [PRINT (Found_images (length images))])))))"

definition extract_images_from_url ::
    "env \<Rightarrow> string \<Rightarrow> trace \<Rightarrow> (exn + bytes list) \<times> trace" where
  "extract_images_from_url env url0 w =
     (let url = strip url0 in
      if direct_image_link url then
        (case download_and_convert env url (w @ [PRINT (Direct_image_URL_detected url)]) of
           (Inl e, w') \<Rightarrow> (Inl e, w')
         | (Inr None, w') \<Rightarrow> (Inr [], w')
         | (Inr (Some img_bytes), w') \<Rightarrow>
             if img_bytes = [] then (Inr [], w') else (Inr [img_bytes], w'))
      else if image_like_url url then
        (case download_and_convert env url (w @ [PRINT (Image_like_URL_detected url)]) of
           (Inl e, w') \<Rightarrow> (Inl e, w')
         | (Inr None, w') \<Rightarrow>
             treat_as_webpage env url (w' @ [PRINT Failed_to_download_as_direct_image])
         | (Inr (Some img_bytes), w') \<Rightarrow>
             if img_bytes = []
             then treat_as_webpage env url (w' @ [PRINT Failed_to_download_as_direct_image])
             else (Inr [img_bytes], w'))
      else treat_as_webpage env url w)"

subsection \<open>Notions used to state the properties\<close>

text \<open>The bytes \<open>doc.extract_image(xref)["image"]\<close> of an entry, when there are any.\<close>

definition raw_bytes :: "document \<Rightarrow> image_info \<Rightarrow> bytes option" where
  "raw_bytes doc img =
     (case extract_image doc (xref img) of
        Inl e \<Rightarrow> None
      | Inr base_image \<Rightarrow> base_image ''image'')"

text \<open>
  The outcome of \<open>requests.get\<close> with a timeout of 10 followed by \<open>raise_for_status\<close>,
  the pair of calls that opens \<open>download_and_convert\<close> and the page request.
\<close>

definition fetch :: "env \<Rightarrow> string \<Rightarrow> headers \<Rightarrow> exn + response" where
  "fetch env url hdrs =
     (case requests_get env url hdrs 10 of
        Inl e \<Rightarrow> Inl e
      | Inr resp \<Rightarrow>
          (case raise_for_status env resp of
             Some e \<Rightarrow> Inl e
           | None \<Rightarrow> Inr resp))"

text \<open>What \<open>normalize_buffer\<close> returns for a buffer.\<close>

definition decoded :: "env \<Rightarrow> bytes \<Rightarrow> bytes option" where
  "decoded env buffer = fst (normalize_buffer env [] buffer [])"

text \<open>
  The image that one source contributes: it is fetched with the browser headers, decoded,
  and the output is not empty.
\<close>

definition attempt :: "env \<Rightarrow> string \<Rightarrow> bytes option" where
  "attempt env src =
     (case fetch env src browser_headers of
        Inl e \<Rightarrow> None
      | Inr resp \<Rightarrow>
          (case decoded env (content resp) of
             None \<Rightarrow> None
           | Some b \<Rightarrow> if b = [] then None else Some b))"

text \<open>The sources of the \<open>img\<close> elements that have one, in document order.\<close>

fun sources :: "tag list \<Rightarrow> string list" where
  "sources [] = []"
| "sources (tg # tags) =
     (case tg ''src'' of
        None \<Rightarrow> sources tags
      | Some src \<Rightarrow> if src = [] then sources tags else src # sources tags)"

text \<open>The URLs of the requests of a trace, oldest first.\<close>

fun requested_urls :: "trace \<Rightarrow> string list" where
  "requested_urls [] = []"
| "requested_urls (GET u h t # w) = u # requested_urls w"
| "requested_urls (PRINT m # w) = requested_urls w"

text \<open>
  The normalizer as the spec words it (section 4.2): decode the bytes, convert to RGB,
  encode with the one fixed codec; no result when any of the three fails.
\<close>

definition canonical :: "env \<Rightarrow> bytes \<Rightarrow> bytes option" where
  "canonical env buffer =
     (case image_open env buffer of
        Inl e \<Rightarrow> None
      | Inr img \<Rightarrow>
          (case image_convert env img ''RGB'' of
             Inl e \<Rightarrow> None
           | Inr rgb \<Rightarrow>
               (case image_save env rgb ''JPEG'' of
                  Inl e \<Rightarrow> None
                | Inr out \<Rightarrow> Some out)))"

text \<open>
  What the documentation of Pillow says of the calls that the block makes:
  \<open>Image.convert\<close> returns a copy in the mode asked for, of the same size; and a file
  written by \<open>save\<close> with the format JPEG from an RGB image opens as an RGB image of the
  same size.
\<close>

definition pillow_contract :: "env \<Rightarrow> bool" where
  "pillow_contract env \<longleftrightarrow>
     (\<forall>img m img'. image_convert env img m = Inr img' \<longrightarrow>
        mode img' = m \<and> img_width img' = img_width img \<and> img_height img' = img_height img) \<and>
     (\<forall>img out. mode img = ''RGB'' \<and> image_save env img ''JPEG'' = Inr out \<longrightarrow>
        (\<exists>img'. image_open env out = Inr img' \<and> mode img' = ''RGB'' \<and>
                img_width img' = img_width img \<and> img_height img' = img_height img))"

text \<open>
  The branch a call takes, read from the first line it prints, and the branch that the
  lower-cased, stripped URL asks for: a direct link when it ends in one of the seven
  extensions, image-like when one of the six patterns occurs in it, a webpage otherwise.
\<close>

datatype branch = Direct_link | Image_like | Webpage

fun branch_of_event :: "event \<Rightarrow> branch option" where
  "branch_of_event (PRINT (Direct_image_URL_detected u)) = Some Direct_link"
| "branch_of_event (PRINT (Image_like_URL_detected u)) = Some Image_like"
| "branch_of_event (PRINT (Fetching_HTML_from u)) = Some Webpage"
| "branch_of_event e = None"

definition branch_taken :: "env \<Rightarrow> string \<Rightarrow> trace \<Rightarrow> branch option" where
  "branch_taken env url w =
     (case drop (length w) (snd (extract_images_from_url env url w)) of
        [] \<Rightarrow> None
      | e # es \<Rightarrow> branch_of_event e)"

definition expected_branch :: "string \<Rightarrow> branch" where
  "expected_branch url =
     (let s = lower (strip url)
      in if list_ex (\<lambda>ext. suffix ext s)
              [''.jpg'', ''.jpeg'', ''.png'', ''.gif'', ''.bmp'', ''.tiff'', ''.webp'']
         then Direct_link
         else if list_ex (\<lambda>p. sublist p s)
                   [''/image/'', ''/photo/'', ''/img/'', ''.png'', ''.jpg'', ''.jpeg'']
         then Image_like
         else Webpage)"

subsection \<open>Three concrete environments\<close>

definition scan_doc :: document where
  "scan_doc =
     \<lparr>pages = [\<lparr>get_images = [\<lparr>xref = 7, img_name = ''Im1''\<rparr>, \<lparr>xref = 9, img_name = ''Im2''\<rparr>]\<rparr>,
               \<lparr>get_images = []\<rparr>,
               \<lparr>get_images = [\<lparr>xref = 4, img_name = ''Im3''\<rparr>]\<rparr>],
      extract_image =
        (\<lambda>x. if x = 7 then Inr [''ext'' \<mapsto> [112, 110, 103], ''image'' \<mapsto> [137, 80]]
             else if x = 9 then Inr [''image'' \<mapsto> [255, 216, 255]]
             else if x = 4 then Inr [''image'' \<mapsto> [71]]
             else Inl FileDataError)\<rparr>"

text \<open>
  A machine with one PDF file and no network. \<open>raise_for_status\<close> raises for the status
  codes from 400 to 599, as the library does.
\<close>

definition offline :: env where
  "offline =
     \<lparr>fitz_open = (\<lambda>p. if p = ''scan.pdf'' then Inr scan_doc
                        else if p = ''notes.txt'' then Inl FileDataError
                        else Inl FileNotFoundError),
      requests_get = (\<lambda>u h t. Inl ConnectionError),
      raise_for_status = (\<lambda>r. if 400 \<le> status_code r \<and> status_code r < 600
                                then Some (HTTPError (status_code r)) else None),
      find_all_img = (\<lambda>t. Inr []),
      image_open = (\<lambda>b. Inl UnidentifiedImageError),
      image_convert = (\<lambda>i m. Inr (i\<lparr>mode := m\<rparr>)),
      image_save = (\<lambda>i f. Inr (pixels i))\<rparr>"

text \<open>
  A small web. The page \<open>https://example.com/page.html\<close> has two \<open>img\<close> elements; the
  gallery \<open>http://example.com/photo/index.html\<close> has four, one of them without a source
  and one whose source answers 404. A buffer decodes when it starts with the four bytes of
  the PNG signature; the encoder writes the two bytes of the JPEG start marker and the
  pixels.
\<close>

definition page_html :: string where
  "page_html = ''<img src=/a.png><img src=//cdn.example.com/b.png>''"

definition page_tags :: "tag list" where
  "page_tags = [[''src'' \<mapsto> ''/a.png''], [''src'' \<mapsto> ''//cdn.example.com/b.png'']]"

definition gallery_html :: string where
  "gallery_html =
     ''<img src=/a.png><img alt=x><img src=/gone.png><img src=//cdn.example.com/b.png>''"

definition gallery_tags :: "tag list" where
  "gallery_tags = [[''src'' \<mapsto> ''/a.png''], [''alt'' \<mapsto> ''x''], [''src'' \<mapsto> ''/gone.png''],
                   [''src'' \<mapsto> ''//cdn.example.com/b.png'']]"

definition web :: env where
  "web =
     \<lparr>fitz_open = (\<lambda>p. Inl FileNotFoundError),
      requests_get =
        (\<lambda>u h t.
           if u = ''https://example.com/page.html''
           then Inr \<lparr>status_code = 200, content = [60, 105, 109, 103], text_of = page_html\<rparr>
           else if u = ''http://example.com/photo/index.html''
           then Inr \<lparr>status_code = 200, content = [60, 105, 109, 103], text_of = gallery_html\<rparr>
           else if u = ''https://example.com/a.png'' \<or> u = ''http://example.com/a.png''
           then Inr \<lparr>status_code = 200, content = [137, 80, 78, 71, 1], text_of = []\<rparr>
           else if u = ''https://cdn.example.com/b.png''
           then Inr \<lparr>status_code = 200, content = [137, 80, 78, 71, 2], text_of = []\<rparr>
           else if u = ''https://example.com/gone.png'' \<or> u = ''http://example.com/gone.png''
           then Inr \<lparr>status_code = 404, content = [], text_of = ''Not Found''\<rparr>
           else Inl ConnectionError),
      raise_for_status = (\<lambda>r. if 400 \<le> status_code r \<and> status_code r < 600
                                then Some (HTTPError (status_code r)) else None),
      find_all_img = (\<lambda>t. if t = page_html then Inr page_tags
                           else if t = gallery_html then Inr gallery_tags
                           else Inr []),
      image_open =
        (\<lambda>b. if take 4 b = [137, 80, 78, 71]
             then Inr \<lparr>mode = ''RGBA'', img_width = 1, img_height = 1, pixels = drop 4 b\<rparr>
             else Inl UnidentifiedImageError),
      image_convert = (\<lambda>i m. Inr (i\<lparr>mode := m\<rparr>)),
      image_save = (\<lambda>i f. Inr ([255, 216] @ pixels i))\<rparr>"

text \<open>
  A codec alone. A file is a signature, a byte for the width, a byte for the height and
  the pixels; the signature is that of PNG (read as RGBA) or the JPEG start marker (read
  as RGB). The encoder writes JPEG from RGB images whose sides are below 256.
\<close>

definition darkroom :: env where
  "darkroom =
     \<lparr>fitz_open = (\<lambda>p. Inl FileNotFoundError),
      requests_get = (\<lambda>u h t. Inl ConnectionError),
      raise_for_status = (\<lambda>r. None),
      find_all_img = (\<lambda>t. Inr []),
      image_open =
        (\<lambda>b. if take 4 b = [137, 80, 78, 71] \<and> 6 \<le> length b
             then Inr \<lparr>mode = ''RGBA'', img_width = unat (b ! 4), img_height = unat (b ! 5),
                       pixels = drop 6 b\<rparr>
             else if take 2 b = [255, 216] \<and> 4 \<le> length b
             then Inr \<lparr>mode = ''RGB'', img_width = unat (b ! 2), img_height = unat (b ! 3),
                       pixels = drop 4 b\<rparr>
             else Inl UnidentifiedImageError),
      image_convert = (\<lambda>i m. Inr (i\<lparr>mode := m\<rparr>)),
      image_save =
        (\<lambda>i f. if f = ''JPEG'' \<and> mode i = ''RGB'' \<and> img_width i < 256 \<and> img_height i < 256
               then Inr ([255, 216, of_nat (img_width i), of_nat (img_height i)] @ pixels i)
               else Inl OSError)\<rparr>"

section \<open>Properties of extract\_images\_from\_pdf\<close>

lemma page_loop_all:
  assumes "\<forall>img\<in>set imgs. raw_bytes doc img \<noteq> None"
  shows "\<exists>bs. page_loop doc imgs images = Inr (images @ bs) \<and>
              map Some bs = map (raw_bytes doc) imgs"
  using assms
proof (induction imgs arbitrary: images)
  case Nil
  then show ?case by simp
next
  case (Cons img imgs)
  from Cons.prems obtain base b where
    e: "extract_image doc (xref img) = Inr base" and b: "base ''image'' = Some b"
    by (auto simp: raw_bytes_def split: sum.splits)
  from Cons.prems have "\<forall>i\<in>set imgs. raw_bytes doc i \<noteq> None" by simp
  from Cons.IH [OF this, of "images @ [b]"] obtain bs where
    "page_loop doc imgs (images @ [b]) = Inr (images @ [b] @ bs)"
    "map Some bs = map (raw_bytes doc) imgs" by auto
  then have "page_loop doc (img # imgs) images = Inr (images @ (b # bs)) \<and>
       map Some (b # bs) = map (raw_bytes doc) (img # imgs)"
    using e b by (simp add: raw_bytes_def)
  then show ?case by blast
qed

lemma doc_loop_all:
  assumes "\<forall>pg\<in>set pgs. \<forall>img\<in>set (get_images pg). raw_bytes doc img \<noteq> None"
  shows "\<exists>bs. doc_loop doc pgs images = Inr (images @ bs) \<and>
              map Some bs = map (raw_bytes doc) (concat (map get_images pgs))"
  using assms
proof (induction pgs arbitrary: images)
  case Nil
  then show ?case by simp
next
  case (Cons pg pgs)
  from Cons.prems have "\<forall>img\<in>set (get_images pg). raw_bytes doc img \<noteq> None" by simp
  from page_loop_all [OF this, of images] obtain bs where
    p: "page_loop doc (get_images pg) images = Inr (images @ bs)"
       "map Some bs = map (raw_bytes doc) (get_images pg)" by auto
  from Cons.prems have "\<forall>q\<in>set pgs. \<forall>img\<in>set (get_images q). raw_bytes doc img \<noteq> None"
    by simp
  from Cons.IH [OF this, of "images @ bs"] obtain cs where
    d: "doc_loop doc pgs (images @ bs) = Inr ((images @ bs) @ cs)"
       "map Some cs = map (raw_bytes doc) (concat (map get_images pgs))" by auto
  have "doc_loop doc (pg # pgs) images = Inr (images @ (bs @ cs)) \<and>
        map Some (bs @ cs) = map (raw_bytes doc) (concat (map get_images (pg # pgs)))"
    using p d by simp
  then show ?case by blast
qed

text \<open>
  Claim C1. When \<open>fitz.open\<close> opens the document and every entry that the pages report
  has bytes under the key \<open>image\<close>, \<open>extract_images_from_pdf\<close> returns one buffer for each
  entry of each page (N, the number of entries over all pages), in page order and, within a
  page, in the order of \<open>get_images\<close>; each buffer is the bytes \<open>extract_image\<close> gave,
  unchanged.
\<close>

theorem pdf_images_in_page_order:
  assumes "fitz_open env pdf_path = Inr doc"
    and "\<forall>pg\<in>set (pages doc). \<forall>img\<in>set (get_images pg). raw_bytes doc img \<noteq> None"
  shows "\<exists>images. extract_images_from_pdf env pdf_path = Inr images \<and>
           length images = (\<Sum>pg\<leftarrow>pages doc. length (get_images pg)) \<and>
           map Some images = map (raw_bytes doc) (concat (map get_images (pages doc)))"
proof -
  from doc_loop_all [OF assms(2), of "[]"] obtain bs where
    d: "doc_loop doc (pages doc) [] = Inr bs"
       "map Some bs = map (raw_bytes doc) (concat (map get_images (pages doc)))" by auto
  from d(2) have "length (map Some bs) = length (concat (map get_images (pages doc)))"
    by simp
  then have "length bs = (\<Sum>pg\<leftarrow>pages doc. length (get_images pg))"
    by (simp add: length_concat comp_def)
  with d assms(1) show ?thesis
    by (simp add: extract_images_from_pdf_def)
qed

theorem pdf_images_in_page_order_witness:
  "fitz_open offline ''scan.pdf'' = Inr scan_doc \<and>
   list_all (\<lambda>pg. list_all (\<lambda>img. raw_bytes scan_doc img \<noteq> None) (get_images pg))
     (pages scan_doc) \<and>
   extract_images_from_pdf offline ''scan.pdf'' = Inr [[137, 80], [255, 216, 255], [71]]"
proof -
  have h1: "fitz_open offline ''scan.pdf'' = Inr scan_doc"
    by (simp add: offline_def)
  have h2: "\<forall>pg\<in>set (pages scan_doc). \<forall>img\<in>set (get_images pg). raw_bytes scan_doc img \<noteq> None"
    by (simp add: scan_doc_def raw_bytes_def)
  from pdf_images_in_page_order [OF h1 h2] obtain images where
    r: "extract_images_from_pdf offline ''scan.pdf'' = Inr images"
       "map Some images = map (raw_bytes scan_doc) (concat (map get_images (pages scan_doc)))"
    by blast
  from r(2) have "map Some images = map Some [[137, 80], [255, 216, 255], [71]]"
    by (simp add: scan_doc_def raw_bytes_def)
  then have "images = [[137, 80], [255, 216, 255], [71]]"
    by (simp only: inj_map_eq_map [OF inj_Some])
  with r(1) h1 h2 show ?thesis by (simp add: list_all_iff)
qed

text \<open>
  Claim C2. When \<open>fitz.open\<close> raises (the file is missing or is not a document; the spec
  calls this exception \<open>SourceUnavailable\<close>), \<open>extract_images_from_pdf\<close> raises the same
  exception to its caller: the result is the exception and holds no list of buffers.
\<close>

theorem pdf_open_failure_raises:
  assumes "fitz_open env pdf_path = Inl e"
  shows "extract_images_from_pdf env pdf_path = Inl e"
  using assms by (simp add: extract_images_from_pdf_def)

theorem pdf_open_failure_raises_witness:
  "fitz_open offline ''missing.pdf'' = Inl FileNotFoundError \<and>
   extract_images_from_pdf offline ''missing.pdf'' = Inl FileNotFoundError \<and>
   fitz_open offline ''notes.txt'' = Inl FileDataError \<and>
   extract_images_from_pdf offline ''notes.txt'' = Inl FileDataError"
proof -
  have h1: "fitz_open offline ''missing.pdf'' = Inl FileNotFoundError"
    by (simp add: offline_def)
  have h2: "fitz_open offline ''notes.txt'' = Inl FileDataError"
    by (simp add: offline_def)
  from pdf_open_failure_raises [OF h1] pdf_open_failure_raises [OF h2] h1 h2
  show ?thesis by simp
qed


section \<open>Properties of download\_and\_convert and of the loop over the img elements\<close>

lemma requested_urls_append:
  "requested_urls (w @ w') = requested_urls w @ requested_urls w'"
  by (induction w rule: requested_urls.induct) simp_all

lemma normalize_result: "fst (normalize_buffer env u buffer w) = decoded env buffer"
  by (simp add: decoded_def normalize_buffer_def split: sum.splits)

lemma normalize_requests:
  "requested_urls (snd (normalize_buffer env u buffer w)) = requested_urls w"
  by (simp add: normalize_buffer_def requested_urls_append split: sum.splits)

lemma download_result:
  "fst (download_and_convert env src w) =
     (case fetch env src browser_headers of
        Inl e \<Rightarrow> Inl e
      | Inr resp \<Rightarrow> Inr (decoded env (content resp)))"
proof (cases "fetch env src browser_headers")
  case (Inl e)
  then show ?thesis
    by (auto simp: download_and_convert_def fetch_def Let_def split: sum.splits option.splits)
next
  case (Inr resp)
  then have g: "requests_get env src browser_headers 10 = Inr resp"
    and s: "raise_for_status env resp = None"
    by (auto simp: fetch_def split: sum.splits option.splits)
  have "fst (download_and_convert env src w) =
        Inr (fst (normalize_buffer env src (content resp) (w @ [GET src browser_headers 10])))"
    using g s by (simp add: download_and_convert_def Let_def split: prod.splits)
  with Inr show ?thesis by (simp add: normalize_result)
qed

lemma download_requests:
  "requested_urls (snd (download_and_convert env src w)) = requested_urls w @ [src]"
proof (cases "fetch env src browser_headers")
  case (Inl e)
  then show ?thesis
    by (auto simp: download_and_convert_def fetch_def Let_def requested_urls_append
             split: sum.splits option.splits)
next
  case (Inr resp)
  then have g: "requests_get env src browser_headers 10 = Inr resp"
    and s: "raise_for_status env resp = None"
    by (auto simp: fetch_def split: sum.splits option.splits)
  have "snd (download_and_convert env src w) =
        snd (normalize_buffer env src (content resp) (w @ [GET src browser_headers 10]))"
    using g s by (simp add: download_and_convert_def Let_def split: prod.splits)
  then show ?thesis by (simp add: normalize_requests requested_urls_append)
qed

lemma download_cases:
  obtains (raised) e w' where "download_and_convert env src w = (Inl e, w')"
      "fetch env src browser_headers = Inl e"
      "attempt env src = None" "requested_urls w' = requested_urls w @ [src]"
  | (nothing) w' where "download_and_convert env src w = (Inr None, w')"
      "attempt env src = None" "requested_urls w' = requested_urls w @ [src]"
  | (empty) w' where "download_and_convert env src w = (Inr (Some []), w')"
      "attempt env src = None" "requested_urls w' = requested_urls w @ [src]"
  | (image) b w' where "download_and_convert env src w = (Inr (Some b), w')" "b \<noteq> []"
      "attempt env src = Some b" "requested_urls w' = requested_urls w @ [src]"
proof -
  obtain r w' where d: "download_and_convert env src w = (r, w')"
    by (cases "download_and_convert env src w")
  have f: "r = (case fetch env src browser_headers of
                  Inl e \<Rightarrow> Inl e | Inr resp \<Rightarrow> Inr (decoded env (content resp)))"
    using download_result [of env src w] d by simp
  have q: "requested_urls w' = requested_urls w @ [src]"
    using download_requests [of env src w] d by simp
  show thesis
  proof (cases r)
    case (Inl e)
    with f have fe: "fetch env src browser_headers = Inl e"
      by (auto split: sum.splits)
    then have a: "attempt env src = None"
      by (simp add: attempt_def)
    from d Inl have "download_and_convert env src w = (Inl e, w')" by simp
    from this fe a q show ?thesis by (rule raised)
  next
    case (Inr o1)
    show ?thesis
    proof (cases o1)
      case None
      with f Inr have a: "attempt env src = None"
        by (auto simp: attempt_def split: sum.splits option.splits)
      from d Inr None have "download_and_convert env src w = (Inr None, w')" by simp
      from this a q show ?thesis by (rule nothing)
    next
      case (Some b)
      show ?thesis
      proof (cases "b = []")
        case True
        with f Inr Some have a: "attempt env src = None"
          by (auto simp: attempt_def split: sum.splits option.splits)
        from d Inr Some True
        have "download_and_convert env src w = (Inr (Some []), w')" by simp
        from this a q show ?thesis by (rule empty)
      next
        case False
        with f Inr Some have a: "attempt env src = Some b"
          by (auto simp: attempt_def split: sum.splits option.splits)
        from d Inr Some have "download_and_convert env src w = (Inr (Some b), w')" by simp
        from this False a q show ?thesis by (rule image)
      qed
    qed
  qed
qed

lemma img_loop_images_and_requests:
  "fst (img_loop env url tags images w) =
     images @ List.map_filter (\<lambda>src. attempt env (rewrite_src url src)) (sources tags) \<and>
   requested_urls (snd (img_loop env url tags images w)) =
     requested_urls w @ map (rewrite_src url) (sources tags)"
proof (induction tags arbitrary: images w)
  case Nil
  then show ?case by simp
next
  case (Cons tg tags)
  show ?case
  proof (cases "tg ''src''")
    case None
    with Cons.IH show ?thesis by simp
  next
    case (Some src0)
    show ?thesis
    proof (cases "src0 = []")
      case True
      with Some Cons.IH show ?thesis by simp
    next
      case False
      show ?thesis
      proof (cases rule: download_cases [of env "rewrite_src url src0" w])
        case (raised e w')
        with Some False
          Cons.IH [of images "w' @ [PRINT (Error_processing_image_from (rewrite_src url src0) e)]"]
        show ?thesis by (simp add: requested_urls_append)
      next
        case (nothing w')
        with Some False Cons.IH [of images w']
        show ?thesis by simp
      next
        case (empty w')
        with Some False Cons.IH [of images w']
        show ?thesis by simp
      next
        case (image b w')
        with Some False Cons.IH [of "images @ [b]" w']
        show ?thesis by simp
      qed
    qed
  qed
qed

lemma length_map_filter_le: "length (List.map_filter f xs) \<le> length xs"
  by (simp add: map_filter_def)

lemma length_sources_le: "length (sources tags) \<le> length tags"
  by (induction tags) (auto split: option.splits)

lemma treat_as_webpage_returns: "\<exists>images. fst (treat_as_webpage env url w) = Inr images"
  by (simp add: treat_as_webpage_def Let_def split: sum.splits option.splits prod.splits)

lemma treat_as_webpage_page:
  assumes "fetch env url [] = Inr pg" and "find_all_img env (text_of pg) = Inr tags"
  shows "fst (treat_as_webpage env url w) =
           Inr (List.map_filter (\<lambda>src. attempt env (rewrite_src url src)) (sources tags)) \<and>
         requested_urls (snd (treat_as_webpage env url w)) =
           requested_urls w @ url # map (rewrite_src url) (sources tags)"
proof -
  from assms(1) have g: "requests_get env url [] 10 = Inr pg"
    and s: "raise_for_status env pg = None"
    by (auto simp: fetch_def split: sum.splits option.splits)
  let ?w1 = "w @ [PRINT (Fetching_HTML_from url), GET url [] 10]"
  obtain images w2 where l: "img_loop env url tags [] ?w1 = (images, w2)"
    by (cases "img_loop env url tags [] ?w1")
  from img_loop_images_and_requests [of env url tags "[]" ?w1] l
  have i: "images = List.map_filter (\<lambda>src. attempt env (rewrite_src url src)) (sources tags)"
    and r: "requested_urls w2 = requested_urls ?w1 @ map (rewrite_src url) (sources tags)"
    by simp_all
  have "treat_as_webpage env url w = (Inr images, w2 @ [PRINT (Found_images (length images))])"
    using g s assms(2) l by (simp add: treat_as_webpage_def Let_def)
  with i r show ?thesis by (simp add: requested_urls_append)
qed

lemma webpage_path:
  assumes "\<not> direct_image_link (strip url)"
    and "image_like_url (strip url) \<longrightarrow>
           (\<exists>resp. fetch env (strip url) browser_headers = Inr resp) \<and>
           attempt env (strip url) = None"
  shows "\<exists>w'. extract_images_from_url env url w = treat_as_webpage env (strip url) w' \<and>
              requested_urls w' =
                requested_urls w @ (if image_like_url (strip url) then [strip url] else [])"
proof (cases "image_like_url (strip url)")
  case False
  with assms(1) have "extract_images_from_url env url w = treat_as_webpage env (strip url) w"
    by (simp add: extract_images_from_url_def Let_def)
  with False show ?thesis by auto
next
  case True
  with assms(2) obtain resp where f: "fetch env (strip url) browser_headers = Inr resp"
    and a: "attempt env (strip url) = None" by blast
  let ?w0 = "w @ [PRINT (Image_like_URL_detected (strip url))]"
  show ?thesis
  proof (cases rule: download_cases [of env "strip url" ?w0])
    case (raised e w')
    with f show ?thesis by simp
  next
    case (nothing w')
    note c = this
    from c assms(1) True have "extract_images_from_url env url w =
        treat_as_webpage env (strip url) (w' @ [PRINT Failed_to_download_as_direct_image])"
      by (simp add: extract_images_from_url_def Let_def)
    moreover from c True have "requested_urls (w' @ [PRINT Failed_to_download_as_direct_image]) =
        requested_urls w @ (if image_like_url (strip url) then [strip url] else [])"
      by (simp add: requested_urls_append)
    ultimately show ?thesis by blast
  next
    case (empty w')
    note c = this
    from c assms(1) True have "extract_images_from_url env url w =
        treat_as_webpage env (strip url) (w' @ [PRINT Failed_to_download_as_direct_image])"
      by (simp add: extract_images_from_url_def Let_def)
    moreover from c True have "requested_urls (w' @ [PRINT Failed_to_download_as_direct_image]) =
        requested_urls w @ (if image_like_url (strip url) then [strip url] else [])"
      by (simp add: requested_urls_append)
    ultimately show ?thesis by blast
  next
    case (image b w')
    with a show ?thesis by simp
  qed
qed

lemma split_without_separator: "c \<notin> set s \<Longrightarrow> split s c = [s]"
  by (induction s) auto

lemma split_at_separator: "c \<notin> set s \<Longrightarrow> split (s @ c # t) c = s # split t c"
  by (induction s) auto

lemma base_of_page_url:
  assumes "CHR ''/'' \<notin> set scheme" and "CHR ''/'' \<notin> set host"
    and "path = [] \<or> startswith path ''/''"
  shows "join ''/'' (take 3 (split (scheme @ ''://'' @ host @ path) CHR ''/'')) =
           scheme @ ''://'' @ host"
proof -
  from assms(1) have "CHR ''/'' \<notin> set (scheme @ '':'')" by simp
  from split_at_separator [OF this, of "CHR ''/'' # host @ path"]
  have 1: "split (scheme @ ''://'' @ host @ path) CHR ''/'' =
           (scheme @ '':'') # [] # split (host @ path) CHR ''/''"
    by simp
  have "\<exists>rest. split (host @ path) CHR ''/'' = host # rest"
  proof (cases path)
    case Nil
    with assms(2) show ?thesis by (simp add: split_without_separator)
  next
    case (Cons x p)
    with assms(3) have "x = CHR ''/''" by simp
    with Cons assms(2) show ?thesis by (simp add: split_at_separator)
  qed
  then obtain rest where "split (host @ path) CHR ''/'' = host # rest" ..
  with 1 show ?thesis by simp
qed

lemma rewrite_protocol_relative: "rewrite_src url (''//'' @ rest) = ''https://'' @ rest"
  by (simp add: rewrite_src_def)

lemma rewrite_root_relative:
  assumes "CHR ''/'' \<notin> set scheme" and "CHR ''/'' \<notin> set host"
    and "path = [] \<or> startswith path ''/''" and "\<not> startswith rest ''/''"
  shows "rewrite_src (scheme @ ''://'' @ host @ path) (''/'' @ rest) =
           scheme @ ''://'' @ host @ ''/'' @ rest"
proof -
  from assms(4) have "\<not> startswith (''/'' @ rest) ''//''"
    by (cases rest) auto
  then show ?thesis
    using base_of_page_url [OF assms(1,2,3)] by (simp add: rewrite_src_def)
qed

lemma strip_surrounding_whitespace:
  assumes "list_all isspace pre" and "list_all isspace post"
  shows "strip (pre @ s @ post) = strip s"
proof -
  from assms(1) have 1: "dropWhile isspace (pre @ s @ post) = dropWhile isspace (s @ post)"
    by (simp add: dropWhile_append2 list_all_iff)
  show ?thesis
  proof (cases "list_all isspace s")
    case True
    with assms(2) have a: "dropWhile isspace (s @ post) = []"
      by (auto simp: list_all_iff)
    from True have b: "dropWhile isspace s = []"
      by (auto simp: list_all_iff)
    show ?thesis unfolding strip_def 1 a b ..
  next
    case False
    then obtain x where "x \<in> set s" "\<not> isspace x" by (auto simp: list_all_iff)
    then have a: "dropWhile isspace (s @ post) = dropWhile isspace s @ post"
      by (simp add: dropWhile_append1)
    have b:
      "dropWhile isspace (rev post @ rev (dropWhile isspace s)) =
       dropWhile isspace (rev (dropWhile isspace s))"
      using assms(2) by (intro dropWhile_append2) (simp add: list_all_iff)
    show ?thesis unfolding strip_def 1 a rev_append b ..
  qed
qed

lemma normalize_stored_unfold:
  "normalize_stored env u buffer st w =
     (let s1 = \<lparr>stream_data = buffer, stream_pos = length buffer\<rparr>
      in case image_open env buffer of
           Inl e \<Rightarrow> (None, st @ [s1], w @ [PRINT (Could_not_open_convert u e)])
         | Inr img \<Rightarrow>
             (case image_convert env img ''RGB'' of
                Inl e \<Rightarrow> (None, st @ [s1], w @ [PRINT (Could_not_open_convert u e)])
              | Inr rgb \<Rightarrow>
                  (case image_save env rgb ''JPEG'' of
                     Inl e \<Rightarrow>
                       (None, st @ [s1, \<lparr>stream_data = [], stream_pos = 0\<rparr>],
                        w @ [PRINT (Could_not_open_convert u e)])
                   | Inr enc \<Rightarrow>
                       (Some enc, st @ [s1, \<lparr>stream_data = enc, stream_pos = length enc\<rparr>], w))))"
  by (simp add: normalize_stored_def BytesIO_def stream_read_def stream_write_def getvalue_def
        Let_def nth_append list_update_append split: sum.splits)

lemma normalize_stored_result:
  "fst (normalize_stored env u buffer st w) = canonical env buffer"
  by (simp add: normalize_stored_unfold canonical_def Let_def split: sum.splits)

lemma normalize_stored_frame:
  "take (length st) (fst (snd (normalize_stored env u buffer st w))) = st"
  by (simp add: normalize_stored_unfold Let_def split: sum.splits)

lemma normalize_stored_trace:
  "fst (normalize_stored env u buffer st w) = fst (normalize_buffer env u buffer w) \<and>
   snd (snd (normalize_stored env u buffer st w)) = snd (normalize_buffer env u buffer w)"
  by (simp add: normalize_stored_unfold normalize_buffer_def Let_def split: sum.splits)

lemma startswith_prefix: "startswith s p \<longleftrightarrow> prefix p s"
  by (induction s p rule: startswith.induct) auto

lemma endswith_suffix: "endswith s suf \<longleftrightarrow> suffix suf s"
  by (simp add: endswith_def startswith_prefix suffix_to_prefix)

lemma contains_sublist: "contains s p \<longleftrightarrow> sublist p s"
  by (induction s) (simp_all add: startswith_prefix sublist_Cons_right)

lemma isspace_lower_char: "isspace (lower_char c) = isspace c"
proof -
  have "(of_char (char_of (of_char c + 32 :: nat)) :: nat) = (of_char c + 32) mod 256"
    by simp
  moreover have "(of_char c :: nat) < 256" by simp
  ultimately show ?thesis
    unfolding isspace_def lower_char_def Let_def by (auto split: if_splits)
qed

lemma lower_strip: "lower (strip s) = strip (lower s)"
proof -
  have c: "isspace \<circ> lower_char = isspace"
    by (simp add: fun_eq_iff isspace_lower_char)
  have d: "dropWhile isspace (map lower_char xs) = map lower_char (dropWhile isspace xs)" for xs
    using dropWhile_map [of isspace lower_char xs] by (simp add: c)
  show ?thesis
    by (simp only: strip_def lower_def d rev_map)
qed

lemma normalize_extends: "\<exists>t. snd (normalize_buffer env u buffer w) = w @ t"
  by (simp add: normalize_buffer_def split: sum.splits)

lemma download_extends:
  "\<exists>t. snd (download_and_convert env u w) = w @ GET u browser_headers 10 # t"
proof (cases "fetch env u browser_headers")
  case (Inl e)
  then show ?thesis
    by (auto simp: download_and_convert_def fetch_def Let_def split: sum.splits option.splits)
next
  case (Inr resp)
  then have g: "requests_get env u browser_headers 10 = Inr resp"
    and s: "raise_for_status env resp = None"
    by (auto simp: fetch_def split: sum.splits option.splits)
  have "snd (download_and_convert env u w) =
        snd (normalize_buffer env u (content resp) (w @ [GET u browser_headers 10]))"
    using g s by (simp add: download_and_convert_def Let_def split: prod.splits)
  with normalize_extends [of env u "content resp" "w @ [GET u browser_headers 10]"]
  show ?thesis by auto
qed

lemma img_loop_extends: "\<exists>t. snd (img_loop env url tags images w) = w @ t"
proof (induction tags arbitrary: images w)
  case Nil
  then show ?case by simp
next
  case (Cons tg tags)
  show ?case
  proof (cases "tg ''src''")
    case None
    with Cons.IH show ?thesis by simp
  next
    case (Some src0)
    show ?thesis
    proof (cases "src0 = []")
      case True
      with Some Cons.IH show ?thesis by simp
    next
      case False
      obtain r w' where d: "download_and_convert env (rewrite_src url src0) w = (r, w')"
        by (cases "download_and_convert env (rewrite_src url src0) w")
      with download_extends [of env "rewrite_src url src0" w]
      obtain t where t: "w' = w @ t" by auto
      have "\<exists>images' w''. snd (img_loop env url (tg # tags) images w) =
              snd (img_loop env url tags images' w'') \<and> (\<exists>x. w'' = w' @ x)"
      proof (cases r)
        case (Inl e)
        with Some False d
        have "snd (img_loop env url (tg # tags) images w) =
                snd (img_loop env url tags images
                  (w' @ [PRINT (Error_processing_image_from (rewrite_src url src0) e)]))"
          by (simp add: Let_def)
        then show ?thesis by blast
      next
        case (Inr o1)
        show ?thesis
        proof (cases o1)
          case None
          with Inr Some False d
          have "snd (img_loop env url (tg # tags) images w) = snd (img_loop env url tags images w')"
            by (simp add: Let_def)
          moreover have "w' = w' @ []" by simp
          ultimately show ?thesis by blast
        next
          case (Some b)
          with Inr \<open>tg ''src'' = Some src0\<close> False d
          have "snd (img_loop env url (tg # tags) images w) =
                  snd (img_loop env url tags (if b = [] then images else images @ [b]) w')"
            by (simp add: Let_def)
          moreover have "w' = w' @ []" by simp
          ultimately show ?thesis by blast
        qed
      qed
      then obtain images' w'' x where
        "snd (img_loop env url (tg # tags) images w) = snd (img_loop env url tags images' w'')"
        and "w'' = w' @ x"
        by blast
      with Cons.IH [of images' w''] t show ?thesis by auto
    qed
  qed
qed

lemma treat_as_webpage_extends:
  "\<exists>t. snd (treat_as_webpage env u w) = w @ PRINT (Fetching_HTML_from u) # t"
proof -
  have "\<exists>t. y = w @ PRINT (Fetching_HTML_from u) # t"
    if "img_loop env u tags [] (w @ [PRINT (Fetching_HTML_from u), GET u [] 10]) = (x, y)"
    for tags x y
    using img_loop_extends [of env u tags "[]" "w @ [PRINT (Fetching_HTML_from u), GET u [] 10]"]
      that by auto
  then show ?thesis
    by (fastforce simp: treat_as_webpage_def Let_def
          split: sum.splits option.splits prod.splits)
qed

lemma branch_taken_tests:
  "branch_taken env url w =
     Some (if direct_image_link (strip url) then Direct_link
           else if image_like_url (strip url) then Image_like
           else Webpage)"
proof -
  let ?u = "strip url"
  consider (d) "direct_image_link ?u"
    | (i) "\<not> direct_image_link ?u" "image_like_url ?u"
    | (p) "\<not> direct_image_link ?u" "\<not> image_like_url ?u" by blast
  then show ?thesis
  proof cases
    case d
    from download_extends [of env ?u "w @ [PRINT (Direct_image_URL_detected ?u)]"]
    obtain t where "snd (download_and_convert env ?u (w @ [PRINT (Direct_image_URL_detected ?u)])) =
        w @ PRINT (Direct_image_URL_detected ?u) # GET ?u browser_headers 10 # t" by auto
    with d have "\<exists>t. snd (extract_images_from_url env url w) =
        w @ PRINT (Direct_image_URL_detected ?u) # t"
      by (auto simp: extract_images_from_url_def Let_def split: prod.splits sum.splits option.splits)
    with d show ?thesis by (auto simp: branch_taken_def)
  next
    case i
    let ?w0 = "w @ [PRINT (Image_like_URL_detected ?u)]"
    obtain r w' where dl: "download_and_convert env ?u ?w0 = (r, w')"
      by (cases "download_and_convert env ?u ?w0")
    with download_extends [of env ?u ?w0]
    obtain t where t: "w' = w @ PRINT (Image_like_URL_detected ?u) # GET ?u browser_headers 10 # t"
      by auto
    from treat_as_webpage_extends [of env ?u "w' @ [PRINT Failed_to_download_as_direct_image]"] t
    have "\<exists>t'. snd (treat_as_webpage env ?u (w' @ [PRINT Failed_to_download_as_direct_image])) =
        w @ PRINT (Image_like_URL_detected ?u) # t'" by auto
    with i dl t have "\<exists>t. snd (extract_images_from_url env url w) =
        w @ PRINT (Image_like_URL_detected ?u) # t"
      by (auto simp: extract_images_from_url_def Let_def split: prod.splits sum.splits option.splits)
    with i show ?thesis by (auto simp: branch_taken_def)
  next
    case p
    with treat_as_webpage_extends [of env ?u w]
    have "\<exists>t. snd (extract_images_from_url env url w) = w @ PRINT (Fetching_HTML_from ?u) # t"
      by (simp add: extract_images_from_url_def Let_def)
    with p show ?thesis by (auto simp: branch_taken_def)
  qed
qed

lemma tests_on_lowered:
  "(if direct_image_link u then Direct_link else if image_like_url u then Image_like else Webpage) =
   (let s = lower u
    in if list_ex (\<lambda>ext. suffix ext s)
            [''.jpg'', ''.jpeg'', ''.png'', ''.gif'', ''.bmp'', ''.tiff'', ''.webp'']
       then Direct_link
       else if list_ex (\<lambda>p. sublist p s)
                 [''/image/'', ''/photo/'', ''/img/'', ''.png'', ''.jpg'', ''.jpeg'']
       then Image_like
       else Webpage)"
  by (simp only: direct_image_link_def image_like_url_def endswith_any_def Let_def
        endswith_suffix [abs_def] contains_sublist [abs_def])

lemma branch_taken_expected: "branch_taken env url w = Some (expected_branch url)"
  using tests_on_lowered [of "strip url"]
  by (simp only: branch_taken_tests expected_branch_def)

lemma expected_branch_letter_case:
  assumes "lower a = lower b"
  shows "expected_branch a = expected_branch b"
proof -
  from assms have "lower (strip a) = lower (strip b)"
    by (simp add: lower_strip)
  then show ?thesis by (simp add: expected_branch_def)
qed

lemma expected_branch_whitespace:
  assumes "list_all isspace pre" and "list_all isspace post"
  shows "expected_branch (pre @ s @ post) = expected_branch s"
  using strip_surrounding_whitespace [OF assms, of s] by (simp add: expected_branch_def)

lemma darkroom_contract: "pillow_contract darkroom"
  unfolding pillow_contract_def
proof (intro conjI allI impI)
  fix img m img'
  assume "image_convert darkroom img m = Inr img'"
  then have "img' = img\<lparr>mode := m\<rparr>" by (simp add: darkroom_def)
  then show "mode img' = m" "img_width img' = img_width img" "img_height img' = img_height img"
    by simp_all
next
  fix img out
  assume a: "mode img = ''RGB'' \<and> image_save darkroom img ''JPEG'' = Inr out"
  then have w: "img_width img < 256" and h: "img_height img < 256"
    and out: "out = [255, 216, of_nat (img_width img), of_nat (img_height img)] @ pixels img"
    by (auto simp: darkroom_def split: if_splits)
  from w have uw: "unat (of_nat (img_width img) :: 8 word) = img_width img"
    by (simp add: unat_of_nat)
  from h have uh: "unat (of_nat (img_height img) :: 8 word) = img_height img"
    by (simp add: unat_of_nat)
  have "image_open darkroom out =
          Inr \<lparr>mode = ''RGB'', img_width = img_width img, img_height = img_height img,
               pixels = pixels img\<rparr>"
    unfolding out by (simp add: darkroom_def uw uh)
  then show "\<exists>img'. image_open darkroom out = Inr img' \<and> mode img' = ''RGB'' \<and>
      img_width img' = img_width img \<and> img_height img' = img_height img"
    by simp
qed

lemmas evaluation = extract_images_from_url_def treat_as_webpage_def download_and_convert_def
  normalize_buffer_def direct_image_link_def image_like_url_def endswith_any_def endswith_def
  lower_def lower_char_def char_of_eq_iff strip_def isspace_def Let_def rewrite_src_def
  fetch_def attempt_def decoded_def

section \<open>Properties of extract\_images\_from\_url\<close>

text \<open>
  For a direct image link the result is decided by the one call of
  \<open>download_and_convert\<close>: an exception of the request leaves the function, and otherwise
  the list holds the image, if there is one, and nothing else.
\<close>

lemma direct_link_outcome:
  assumes "direct_image_link (strip url)"
  shows "fst (extract_images_from_url env url w) =
           (case fetch env (strip url) browser_headers of
              Inl e \<Rightarrow> Inl e
            | Inr resp \<Rightarrow>
                (case attempt env (strip url) of None \<Rightarrow> Inr [] | Some b \<Rightarrow> Inr [b]))"
proof (cases rule: download_cases
    [of env "strip url" "w @ [PRINT (Direct_image_URL_detected (strip url))]"])
  case (raised e w')
  with assms show ?thesis by (simp add: extract_images_from_url_def Let_def)
next
  case (nothing w')
  note c = this
  from c(1) download_result [of env "strip url" "w @ [PRINT (Direct_image_URL_detected (strip url))]"]
  obtain resp where "fetch env (strip url) browser_headers = Inr resp"
    by (auto split: sum.splits)
  with c assms show ?thesis by (simp add: extract_images_from_url_def Let_def)
next
  case (empty w')
  note c = this
  from c(1) download_result [of env "strip url" "w @ [PRINT (Direct_image_URL_detected (strip url))]"]
  obtain resp where "fetch env (strip url) browser_headers = Inr resp"
    by (auto split: sum.splits)
  with c assms show ?thesis by (simp add: extract_images_from_url_def Let_def)
next
  case (image b w')
  note c = this
  from c(1) download_result [of env "strip url" "w @ [PRINT (Direct_image_URL_detected (strip url))]"]
  obtain resp where "fetch env (strip url) browser_headers = Inr resp"
    by (auto split: sum.splits)
  with c assms show ?thesis by (simp add: extract_images_from_url_def Let_def)
qed

text \<open>
  Claim C3. The claim says that a direct image link whose fetch fails gives the empty
  list and no exception. The code raises: \<open>https://example.com/gone.png\<close> ends in
  \<open>.png\<close>, the server answers 404, \<open>raise_for_status\<close> raises \<open>HTTPError\<close> outside the
  \<open>try\<close> block of \<open>download_and_convert\<close>, the call in the direct-link branch is not
  guarded, and \<open>extract_images_from_url\<close> ends with that exception.
\<close>

theorem direct_link_fetch_failure_raises:
  "direct_image_link (strip ''https://example.com/gone.png'') \<and>
   fetch web ''https://example.com/gone.png'' browser_headers = Inl (HTTPError 404) \<and>
   extract_images_from_url web ''https://example.com/gone.png'' [] =
     (Inl (HTTPError 404),
      [PRINT (Direct_image_URL_detected ''https://example.com/gone.png''),
       GET ''https://example.com/gone.png'' browser_headers 10])"
  by (simp add: evaluation web_def)

text \<open>
  Claim C4. The claim says that an image-like URL whose single-image fetch fails falls
  through to the webpage path. The code raises: \<open>https://example.com/photo/17\<close> contains
  \<open>/photo/\<close>, the request raises \<open>ConnectionError\<close>, and \<open>extract_images_from_url\<close> ends
  with that exception after one request: the page is never requested.
\<close>

theorem image_like_fetch_failure_raises:
  "\<not> direct_image_link (strip ''https://example.com/photo/17'') \<and>
   image_like_url (strip ''https://example.com/photo/17'') \<and>
   fetch offline ''https://example.com/photo/17'' browser_headers = Inl ConnectionError \<and>
   extract_images_from_url offline ''https://example.com/photo/17'' [] =
     (Inl ConnectionError,
      [PRINT (Image_like_URL_detected ''https://example.com/photo/17''),
       GET ''https://example.com/photo/17'' browser_headers 10])"
  by (simp add: evaluation offline_def)

text \<open>
  Claim C5. For a URL that is handled as a webpage (it is no direct image link and, when
  it is image-like, the single-image attempt fetched it and got no image out of it),
  whose page is fetched and parsed into the elements \<open>tags\<close>: \<open>extract_images_from_url\<close>
  returns, without raising, exactly the images of the sources that are fetched and decoded,
  in the document order of the elements; they are at most K, the number of elements that
  have a source, whatever happens to each single source.
\<close>

theorem webpage_images_in_document_order:
  assumes "\<not> direct_image_link (strip url)"
    and "image_like_url (strip url) \<longrightarrow>
           (\<exists>resp. fetch env (strip url) browser_headers = Inr resp) \<and>
           attempt env (strip url) = None"
    and "fetch env (strip url) [] = Inr pg"
    and "find_all_img env (text_of pg) = Inr tags"
  shows "fst (extract_images_from_url env url w) =
           Inr (List.map_filter (\<lambda>src. attempt env (rewrite_src (strip url) src)) (sources tags)) \<and>
         length (List.map_filter (\<lambda>src. attempt env (rewrite_src (strip url) src)) (sources tags))
           \<le> length (sources tags) \<and>
         length (sources tags) \<le> length tags"
proof -
  from webpage_path [OF assms(1,2), of w] obtain w' where
    "extract_images_from_url env url w = treat_as_webpage env (strip url) w'" by blast
  with treat_as_webpage_page [OF assms(3,4), of w'] show ?thesis
    by (simp add: length_map_filter_le length_sources_le)
qed

theorem webpage_images_in_document_order_witness:
  "\<not> direct_image_link (strip ''  http://example.com/photo/index.html '') \<and>
   image_like_url (strip ''  http://example.com/photo/index.html '') \<and>
   attempt web ''http://example.com/photo/index.html'' = None \<and>
   find_all_img web gallery_html = Inr gallery_tags \<and>
   sources gallery_tags = [''/a.png'', ''/gone.png'', ''//cdn.example.com/b.png''] \<and>
   fst (extract_images_from_url web ''  http://example.com/photo/index.html '' []) =
     Inr [[255, 216, 1], [255, 216, 2]]"
proof -
  let ?u = "''  http://example.com/photo/index.html ''"
  let ?pg = "\<lparr>status_code = 200, content = [60, 105, 109, 103], text_of = gallery_html\<rparr>"
  have s: "strip ?u = ''http://example.com/photo/index.html''"
    by (simp add: strip_def isspace_def)
  have h1: "\<not> direct_image_link (strip ?u)"
    unfolding s by (simp add: evaluation)
  have l: "image_like_url (strip ?u)"
    unfolding s by (simp add: evaluation)
  have f: "fetch web (strip ?u) browser_headers = Inr ?pg"
    unfolding s by (simp add: fetch_def web_def)
  have a: "attempt web (strip ?u) = None"
    unfolding s by (simp add: evaluation web_def)
  from f a have h2: "image_like_url (strip ?u) \<longrightarrow>
      (\<exists>resp. fetch web (strip ?u) browser_headers = Inr resp) \<and> attempt web (strip ?u) = None"
    by blast
  have h3: "fetch web (strip ?u) [] = Inr ?pg"
    unfolding s by (simp add: fetch_def web_def)
  have h4: "find_all_img web (text_of ?pg) = Inr gallery_tags"
    by (simp add: web_def gallery_html_def page_html_def)
  have src: "sources gallery_tags = [''/a.png'', ''/gone.png'', ''//cdn.example.com/b.png'']"
    by (simp add: gallery_tags_def)
  have "List.map_filter (\<lambda>src. attempt web (rewrite_src (strip ?u) src)) (sources gallery_tags) =
          [[255, 216, 1], [255, 216, 2]]"
    unfolding s src by (simp add: evaluation web_def)
  with webpage_images_in_document_order [OF h1 h2 h3 h4, of "[]"] h1 l a h4 src
  show ?thesis unfolding s by simp
qed

text \<open>
  Claim C6, counterexample. The gallery is served over \<open>http\<close>; its protocol-relative
  source \<open>//cdn.example.com/b.png\<close> is requested over \<open>https\<close>, not over the scheme of
  the page.
\<close>

theorem protocol_relative_on_http_page:
  "requested_urls (snd (extract_images_from_url web ''http://example.com/photo/index.html'' [])) =
     [''http://example.com/photo/index.html'', ''http://example.com/photo/index.html'',
      ''http://example.com/a.png'', ''http://example.com/gone.png'',
      ''https://cdn.example.com/b.png''] \<and>
   sources gallery_tags = [''/a.png'', ''/gone.png'', ''//cdn.example.com/b.png''] \<and>
   rewrite_src ''http://example.com/photo/index.html'' ''//cdn.example.com/b.png'' \<noteq>
     ''http:'' @ ''//cdn.example.com/b.png''"
  by (simp add: evaluation web_def gallery_tags_def gallery_html_def page_html_def)

text \<open>
  Claim C6, as amended. When a page is scraped, the requests that follow the page request
  are the rewritten sources, in document order. A protocol-relative source \<open>//rest\<close> is
  rewritten to \<open>https://rest\<close>, whatever the scheme of the page; a root-relative source
  \<open>/tail\<close> is rewritten to the scheme and host of the page followed by \<open>/tail\<close>. The
  witness is the page of the claim: \<open>https://example.com/page.html\<close> with the sources
  \<open>/a.png\<close> and \<open>//cdn.example.com/b.png\<close>.
\<close>

theorem image_sources_rewritten:
  assumes "\<not> direct_image_link (strip url)"
    and "image_like_url (strip url) \<longrightarrow>
           (\<exists>resp. fetch env (strip url) browser_headers = Inr resp) \<and>
           attempt env (strip url) = None"
    and "fetch env (strip url) [] = Inr pg"
    and "find_all_img env (text_of pg) = Inr tags"
    and "strip url = scheme @ ''://'' @ host @ path"
    and "CHR ''/'' \<notin> set scheme" and "CHR ''/'' \<notin> set host"
    and "path = [] \<or> startswith path ''/''"
    and "\<not> startswith tail ''/''"
  shows "requested_urls (snd (extract_images_from_url env url w)) =
           requested_urls w @ (if image_like_url (strip url) then [strip url] else []) @
           strip url # map (rewrite_src (strip url)) (sources tags) \<and>
         rewrite_src (strip url) (''//'' @ rest) = ''https://'' @ rest \<and>
         rewrite_src (strip url) (''/'' @ tail) = scheme @ ''://'' @ host @ ''/'' @ tail"
proof -
  from webpage_path [OF assms(1,2), of w] obtain w' where
    e: "extract_images_from_url env url w = treat_as_webpage env (strip url) w'"
    and r: "requested_urls w' =
              requested_urls w @ (if image_like_url (strip url) then [strip url] else [])"
    by blast
  from treat_as_webpage_page [OF assms(3,4), of w'] e r
  have 1: "requested_urls (snd (extract_images_from_url env url w)) =
           requested_urls w @ (if image_like_url (strip url) then [strip url] else []) @
           strip url # map (rewrite_src (strip url)) (sources tags)"
    by simp
  have 2: "rewrite_src (strip url) (''//'' @ rest) = ''https://'' @ rest"
    by (rule rewrite_protocol_relative)
  from rewrite_root_relative [OF assms(6,7,8,9)] assms(5)
  have 3: "rewrite_src (strip url) (''/'' @ tail) = scheme @ ''://'' @ host @ ''/'' @ tail"
    by simp
  from 1 2 3 show ?thesis by blast
qed

theorem image_sources_rewritten_witness:
  "\<not> direct_image_link (strip ''https://example.com/page.html'') \<and>
   \<not> image_like_url (strip ''https://example.com/page.html'') \<and>
   find_all_img web page_html = Inr page_tags \<and>
   sources page_tags = [''/a.png'', ''//cdn.example.com/b.png''] \<and>
   requested_urls (snd (extract_images_from_url web ''https://example.com/page.html'' [])) =
     [''https://example.com/page.html'', ''https://example.com/a.png'',
      ''https://cdn.example.com/b.png''] \<and>
   rewrite_src ''https://example.com/page.html'' ''/a.png'' = ''https://example.com/a.png'' \<and>
   rewrite_src ''https://example.com/page.html'' ''//cdn.example.com/b.png'' =
     ''https://cdn.example.com/b.png''"
proof -
  let ?u = "''https://example.com/page.html''"
  let ?pg = "\<lparr>status_code = 200, content = [60, 105, 109, 103], text_of = page_html\<rparr>"
  have s: "strip ?u = ?u"
    by (simp add: strip_def isspace_def)
  have h1: "\<not> direct_image_link (strip ?u)"
    unfolding s by (simp add: evaluation)
  have n: "\<not> image_like_url (strip ?u)"
    unfolding s by (simp add: evaluation)
  then have h2: "image_like_url (strip ?u) \<longrightarrow>
      (\<exists>resp. fetch web (strip ?u) browser_headers = Inr resp) \<and> attempt web (strip ?u) = None"
    by blast
  have h3: "fetch web (strip ?u) [] = Inr ?pg"
    unfolding s by (simp add: fetch_def web_def)
  have h4: "find_all_img web (text_of ?pg) = Inr page_tags"
    by (simp add: web_def)
  have h5: "strip ?u = ''https'' @ ''://'' @ ''example.com'' @ ''/page.html''"
    unfolding s by simp
  have h6: "CHR ''/'' \<notin> set ''https''" by simp
  have h7: "CHR ''/'' \<notin> set ''example.com''" by simp
  have h8: "''/page.html'' = [] \<or> startswith ''/page.html'' ''/''" by simp
  have h9: "\<not> startswith ''a.png'' ''/''" by simp
  have src: "sources page_tags = [''/a.png'', ''//cdn.example.com/b.png'']"
    by (simp add: page_tags_def)
  from image_sources_rewritten [OF h1 h2 h3 h4 h5 h6 h7 h8 h9, of "[]" "''cdn.example.com/b.png''"]
  have a: "requested_urls (snd (extract_images_from_url web ?u [])) =
             ?u # map (rewrite_src ?u) (sources page_tags)"
    and b: "rewrite_src ?u ''//cdn.example.com/b.png'' = ''https://cdn.example.com/b.png''"
    and c: "rewrite_src ?u ''/a.png'' = ''https://example.com/a.png''"
    using n unfolding s by simp_all
  from a b c src h1 n h4 show ?thesis unfolding s by simp
qed

text \<open>
  Claim C7. The claim says that every request carries the browser's User-Agent. The
  request of the HTML page carries no headers at all; the requests of the images carry
  the User-Agent, and all of them have the timeout 10.
\<close>

theorem page_request_without_user_agent:
  "snd (extract_images_from_url web ''https://example.com/page.html'' []) =
     [PRINT (Fetching_HTML_from ''https://example.com/page.html''),
      GET ''https://example.com/page.html'' [] 10,
      GET ''https://example.com/a.png'' [(''User-Agent'', user_agent)] 10,
      GET ''https://cdn.example.com/b.png'' [(''User-Agent'', user_agent)] 10,
      PRINT (Found_images 2)]"
  by (simp add: evaluation web_def page_tags_def browser_headers_def)

text \<open>
  Claim C8. Two calls of \<open>normalize\<close> on the same buffer give the same output, whatever
  the store, the trace and the URL of each call: the output is the canonical form of the
  buffer, and a call leaves every object that existed before it as it was (it works on
  the two streams it creates). In particular the second call may run in the store and
  after the trace that the first one left. Pillow's decoder and encoder are parameters of
  the model, functions of their arguments.
\<close>

theorem normalize_twice_same_output:
  assumes "normalize_stored env u buffer st w = (r1, st1, w1)"
    and "normalize_stored env u' buffer st' w' = (r2, st2, w2)"
  shows "r1 = canonical env buffer \<and> r2 = r1 \<and>
         take (length st) st1 = st \<and> take (length st') st2 = st'"
  using normalize_stored_result [of env u buffer st w]
    normalize_stored_result [of env u' buffer st' w']
    normalize_stored_frame [of st env u buffer w]
    normalize_stored_frame [of st' env u' buffer w'] assms
  by simp

theorem normalize_twice_same_output_witness:
  "normalize_stored darkroom ''u'' [137, 80, 78, 71, 2, 1, 9, 8, 7]
     [\<lparr>stream_data = [1, 2, 3], stream_pos = 1\<rparr>] [] =
     (Some [255, 216, 2, 1, 9, 8, 7],
      [\<lparr>stream_data = [1, 2, 3], stream_pos = 1\<rparr>,
       \<lparr>stream_data = [137, 80, 78, 71, 2, 1, 9, 8, 7], stream_pos = 9\<rparr>,
       \<lparr>stream_data = [255, 216, 2, 1, 9, 8, 7], stream_pos = 7\<rparr>], []) \<and>
   fst (normalize_stored darkroom ''u'' [137, 80, 78, 71, 2, 1, 9, 8, 7]
     [\<lparr>stream_data = [1, 2, 3], stream_pos = 1\<rparr>,
      \<lparr>stream_data = [137, 80, 78, 71, 2, 1, 9, 8, 7], stream_pos = 9\<rparr>,
      \<lparr>stream_data = [255, 216, 2, 1, 9, 8, 7], stream_pos = 7\<rparr>] []) =
     Some [255, 216, 2, 1, 9, 8, 7] \<and>
   canonical darkroom [137, 80, 78, 71, 2, 1, 9, 8, 7] = Some [255, 216, 2, 1, 9, 8, 7]"
proof -
  let ?b = "[137, 80, 78, 71, 2, 1, 9, 8, 7] :: bytes"
  let ?st = "[\<lparr>stream_data = [1, 2, 3], stream_pos = 1\<rparr>] :: store"
  let ?st1 = "[\<lparr>stream_data = [1, 2, 3], stream_pos = 1\<rparr>,
       \<lparr>stream_data = ?b, stream_pos = 9\<rparr>,
       \<lparr>stream_data = [255, 216, 2, 1, 9, 8, 7], stream_pos = 7\<rparr>] :: store"
  have h1: "normalize_stored darkroom ''u'' ?b ?st [] = (Some [255, 216, 2, 1, 9, 8, 7], ?st1, [])"
    by (simp add: normalize_stored_def BytesIO_def stream_read_def stream_write_def getvalue_def
          darkroom_def Let_def)
  obtain r2 st2 w2 where h2: "normalize_stored darkroom ''u'' ?b ?st1 [] = (r2, st2, w2)"
    by (cases "normalize_stored darkroom ''u'' ?b ?st1 []")
  from normalize_twice_same_output [OF h1 h2] h1 h2 show ?thesis by simp
qed

text \<open>
  Claim C9. When Pillow keeps to its documentation (\<open>pillow_contract\<close>), every buffer that
  \<open>normalize\<close> converts was decoded to a source bitmap, and the canonical output decodes
  to an RGB bitmap with the width and the height of that source bitmap.
\<close>

theorem canonical_output_keeps_size:
  assumes "pillow_contract env"
    and "fst (normalize_buffer env u buffer w) = Some out"
  shows "\<exists>src img. image_open env buffer = Inr src \<and> image_open env out = Inr img \<and>
           mode img = ''RGB'' \<and> img_width img = img_width src \<and>
           img_height img = img_height src"
proof -
  from assms(2) obtain src rgb where
    o: "image_open env buffer = Inr src" and c: "image_convert env src ''RGB'' = Inr rgb"
    and s: "image_save env rgb ''JPEG'' = Inr out"
    by (auto simp: normalize_buffer_def split: sum.splits)
  from assms(1) c have r: "mode rgb = ''RGB''" "img_width rgb = img_width src"
    "img_height rgb = img_height src"
    unfolding pillow_contract_def by blast+
  from assms(1) r(1) s obtain img where "image_open env out = Inr img" "mode img = ''RGB''"
    "img_width img = img_width rgb" "img_height img = img_height rgb"
    unfolding pillow_contract_def by blast
  with o r show ?thesis by simp
qed

theorem canonical_output_keeps_size_witness:
  "fst (normalize_buffer darkroom ''u'' [137, 80, 78, 71, 2, 1, 9, 8, 7] []) =
     Some [255, 216, 2, 1, 9, 8, 7] \<and>
   image_open darkroom [137, 80, 78, 71, 2, 1, 9, 8, 7] =
     Inr \<lparr>mode = ''RGBA'', img_width = 2, img_height = 1, pixels = [9, 8, 7]\<rparr> \<and>
   image_open darkroom [255, 216, 2, 1, 9, 8, 7] =
     Inr \<lparr>mode = ''RGB'', img_width = 2, img_height = 1, pixels = [9, 8, 7]\<rparr>"
proof -
  let ?b = "[137, 80, 78, 71, 2, 1, 9, 8, 7] :: bytes"
  have h: "fst (normalize_buffer darkroom ''u'' ?b []) = Some [255, 216, 2, 1, 9, 8, 7]"
    by (simp add: normalize_buffer_def darkroom_def)
  have o: "image_open darkroom ?b =
     Inr \<lparr>mode = ''RGBA'', img_width = 2, img_height = 1, pixels = [9, 8, 7]\<rparr>"
    by (simp add: darkroom_def)
  from canonical_output_keeps_size [OF darkroom_contract h] obtain src img where
    "image_open darkroom ?b = Inr src" "image_open darkroom [255, 216, 2, 1, 9, 8, 7] = Inr img"
    "mode img = ''RGB''" "img_width img = img_width src" "img_height img = img_height src"
    by blast
  moreover have "\<exists>p. image_open darkroom [255, 216, 2, 1, 9, 8, 7] =
      Inr \<lparr>mode = ''RGB'', img_width = 2, img_height = 1, pixels = p\<rparr> \<and> p = [9, 8, 7]"
    by (simp add: darkroom_def)
  ultimately show ?thesis using h o by auto
qed

text \<open>
  Claim C10. \<open>extract_images_from_url\<close> gives the same result and the same trace on two
  strings that differ only in surrounding white space; and on two URLs that differ only
  in surrounding white space and in the case of their letters it takes the same branch,
  the one that the tests ask for on the lower-cased, stripped URL.
\<close>

theorem surrounding_whitespace_and_letter_case:
  assumes "list_all isspace pre" and "list_all isspace post"
    and "list_all isspace pre'" and "list_all isspace post'"
    and "lower a = lower b"
  shows "extract_images_from_url env (pre @ a @ post) w =
           extract_images_from_url env (pre' @ a @ post') w \<and>
         branch_taken env (pre @ a @ post) w = Some (expected_branch a) \<and>
         branch_taken env (pre' @ b @ post') w = Some (expected_branch a)"
proof -
  from strip_surrounding_whitespace [OF assms(1,2), of a]
    strip_surrounding_whitespace [OF assms(3,4), of a]
  have 1: "extract_images_from_url env (pre @ a @ post) w =
           extract_images_from_url env (pre' @ a @ post') w"
    by (simp add: extract_images_from_url_def)
  have 2: "branch_taken env (pre @ a @ post) w = Some (expected_branch a)"
    by (simp add: branch_taken_expected expected_branch_whitespace [OF assms(1,2)])
  have 3: "branch_taken env (pre' @ b @ post') w = Some (expected_branch a)"
    by (simp add: branch_taken_expected expected_branch_whitespace [OF assms(3,4)]
          expected_branch_letter_case [OF assms(5)])
  from 1 2 3 show ?thesis by blast
qed

theorem surrounding_whitespace_and_letter_case_witness:
  "list_all isspace [CHR 0x09, CHR 0xA0] \<and> list_all isspace [CHR '' '', CHR 0x85, CHR 0x0A] \<and>
   list_all isspace [] \<and>
   lower ''HTTPS://Example.COM/Scan.PNG'' = lower ''https://example.com/scan.png'' \<and>
   extract_images_from_url web
     ([CHR 0x09, CHR 0xA0] @ ''HTTPS://Example.COM/Scan.PNG'' @ [CHR '' '', CHR 0x85, CHR 0x0A]) [] =
     extract_images_from_url web ''HTTPS://Example.COM/Scan.PNG'' [] \<and>
   branch_taken web
     ([CHR 0x09, CHR 0xA0] @ ''HTTPS://Example.COM/Scan.PNG'' @ [CHR '' '', CHR 0x85, CHR 0x0A]) [] =
     Some Direct_link \<and>
   branch_taken web ''https://example.com/scan.png'' [] = Some Direct_link"
proof -
  have h1: "list_all isspace [CHR 0x09, CHR 0xA0]" by (simp add: isspace_def)
  have h2: "list_all isspace [CHR '' '', CHR 0x85, CHR 0x0A]" by (simp add: isspace_def)
  have h3: "list_all isspace []" by simp
  have h5: "lower ''HTTPS://Example.COM/Scan.PNG'' = lower ''https://example.com/scan.png''"
    by (simp add: lower_def lower_char_def char_of_eq_iff)
  have e: "expected_branch ''HTTPS://Example.COM/Scan.PNG'' = Direct_link"
    by (simp add: expected_branch_def flip: endswith_suffix contains_sublist)
       (simp add: evaluation)
  from surrounding_whitespace_and_letter_case
         [OF h1 h2 h3 h3 h5, of web "[]"] h1 h2 h5 e
  show ?thesis by simp
qed

end
